theory Spec2Isabelle
  imports Complex_Main
begin

section \<open>TokenCapGCWrapper: the data model\<close>

text \<open>
  The wrapper class \<open>TokenCapGCWrapper\<close> validates a parameter object, normalises the
  cap with \<open>new BigNumber(params.cap)\<close> and hands the ordered arguments to the base class
  method \<open>_setParameters\<close>. A raised exception is the left summand of the result.
\<close>

type_synonym Address = string
type_synonym Hash = string

text \<open>
  A JavaScript exception object with its properties \<open>name\<close> (the name of its class)
  and \<open>message\<close>. \<open>new Error(msg)\<close>, the only exception the wrapper constructs, is
  an object of the built-in class \<open>Error\<close>, whose \<open>name\<close> is \<open>Error\<close>.
\<close>

record error =
  name :: string
  message :: string

definition Error :: "string \<Rightarrow> error" where
  "Error msg = \<lparr>name = ''Error'', message = msg\<rparr>"

text \<open>
  Values of the library type \<open>BigNumber\<close>: a finite decimal number, \<open>NaN\<close>, or one of
  the two infinities (the sign of a zero is not kept; \<open>lt\<close> does not depend on it). The
  library bignumber.js is not part of the repository; only the comparison \<open>lt\<close> used by
  the wrapper is written out (a comparison with \<open>NaN\<close> is false).
\<close>

datatype BigNumber = Finite rat | NaN | Infinity | NegInfinity

fun lt :: "BigNumber \<Rightarrow> BigNumber \<Rightarrow> bool" where
  "lt (Finite a) (Finite b) = (a < b)"
| "lt NaN _ = False"
| "lt _ NaN = False"
| "lt NegInfinity NegInfinity = False"
| "lt NegInfinity _ = True"
| "lt _ NegInfinity = False"
| "lt Infinity _ = False"
| "lt _ Infinity = True"

text \<open>
  A JavaScript value as it occurs in a parameter object or in the argument array of a
  contract call. \<open>falsy\<close> is the test behind \<open>!v\<close>: \<open>undefined\<close>, \<open>null\<close> and
  the empty string are falsy, a non-empty string and an object are not.
\<close>

datatype jsval = Undefined | Null | Str string | Big BigNumber

fun falsy :: "jsval \<Rightarrow> bool" where
  "falsy Undefined = True"
| "falsy Null = True"
| "falsy (Str s) = (s = [])"
| "falsy (Big b) = False"

text \<open>The field \<open>cap: BigNumber | string\<close> of \<open>TokenCapGcParams\<close>.\<close>

datatype cap_input = CapString string | CapBigNumber BigNumber

record 'ctx TokenCapGcParams =
  txEventContext :: 'ctx
  cap :: cap_input
  token :: jsval

record ('tx, 'd) ArcTransactionDataResult =
  tx :: 'tx
  result :: 'd

text \<open>
  \<open>new BigNumber(v)\<close>: a \<open>BigNumber\<close> object is copied, a string is read by the
  library. The library's reading of strings is the parameter \<open>of_string\<close>; it may raise.
\<close>

fun BigNumber_new :: "(string \<Rightarrow> error + BigNumber) \<Rightarrow> cap_input \<Rightarrow> error + BigNumber" where
  "BigNumber_new of_string (CapString s) = of_string s"
| "BigNumber_new of_string (CapBigNumber b) = Inr b"

section \<open>TokenCapGCWrapper.setParameters and getParameters\<close>

text \<open>
  \<open>setParameters\<close> over an explicit state \<open>'st\<close> of the chain collaborator. The base
  class method \<open>_setParameters\<close> (\<open>ContractWrapperBase\<close>, not among the sources) is the
  parameter \<open>super_setParameters\<close>: it is the only place where the state can change.
\<close>

definition setParameters ::
  "(string \<Rightarrow> error + BigNumber) \<Rightarrow>
   (string \<Rightarrow> 'ctx \<Rightarrow> jsval list \<Rightarrow> 'st \<Rightarrow> (error + ('tx, Hash) ArcTransactionDataResult) \<times> 'st) \<Rightarrow>
   'ctx TokenCapGcParams \<Rightarrow> 'st \<Rightarrow> (error + ('tx, Hash) ArcTransactionDataResult) \<times> 'st" where
  "setParameters of_string super_setParameters params st =
     (if falsy (token params) then (Inl (Error ''token must be set''), st)
      else case BigNumber_new of_string (cap params) of
        Inl e \<Rightarrow> (Inl e, st)
      | Inr c \<Rightarrow>
          if lt c (Finite 0)
          then (Inl (Error ''cap must be greater than or equal to zero''), st)
          else super_setParameters ''TokenCapGC.setParameters'' (txEventContext params)
                 [token params, Big c] st)"

text \<open>
  \<open>params[i]\<close> on a JavaScript array: \<open>undefined\<close> beyond the end.
\<close>

definition js_index :: "jsval list \<Rightarrow> nat \<Rightarrow> jsval" where
  "js_index xs i = (if i < length xs then xs ! i else Undefined)"

record TokenCapGcParamsObject =
  r_cap :: jsval
  r_token :: jsval

text \<open>
  \<open>getParameters\<close>: the base class method \<open>getParametersArray\<close> (not among the
  sources) is a parameter; a rejection of its promise propagates.
\<close>

definition getParameters ::
  "(Hash \<Rightarrow> 'st \<Rightarrow> error + jsval list) \<Rightarrow> Hash \<Rightarrow> 'st \<Rightarrow> error + TokenCapGcParamsObject" where
  "getParameters getParametersArray paramsHash st =
     (case getParametersArray paramsHash st of
        Inl e \<Rightarrow> Inl e
      | Inr params \<Rightarrow> Inr \<lparr>r_cap = js_index params 1, r_token = js_index params 0\<rparr>)"

section \<open>Concrete collaborators for evaluation\<close>

text \<open>
  A reading of decimal integer strings (an optional minus sign, then digits) for the
  library parameter; every other string gives \<open>NaN\<close>.
\<close>

fun digits_value :: "nat \<Rightarrow> string \<Rightarrow> nat option" where
  "digits_value acc [] = Some acc"
| "digits_value acc (c # cs) =
     (if 48 \<le> (of_char c :: nat) \<and> (of_char c :: nat) \<le> 57
      then digits_value (10 * acc + ((of_char c :: nat) - 48)) cs
      else None)"

definition decimal_of_string :: "string \<Rightarrow> error + BigNumber" where
  "decimal_of_string s =
     (case s of
        [] \<Rightarrow> Inr NaN
      | c # cs \<Rightarrow>
          if c = CHR ''-''
          then (case cs of
                  [] \<Rightarrow> Inr NaN
                | _ \<Rightarrow> (case digits_value 0 cs of
                          None \<Rightarrow> Inr NaN
                        | Some n \<Rightarrow> Inr (Finite (- of_nat n))))
          else (case digits_value 0 s of
                  None \<Rightarrow> Inr NaN
                | Some n \<Rightarrow> Inr (Finite (of_nat n))))"

text \<open>
  A chain that keeps every submitted parameter tuple under a fresh hash (a unary
  counter), newest first; \<open>chain_getParametersArray\<close> reads a tuple back.
\<close>

type_synonym chain = "(Hash \<times> jsval list) list"

definition chain_setParameters ::
  "string \<Rightarrow> unit \<Rightarrow> jsval list \<Rightarrow> chain \<Rightarrow> (error + (unit, Hash) ArcTransactionDataResult) \<times> chain" where
  "chain_setParameters functionName ctx ps st =
     (Inr \<lparr>tx = (), result = replicate (length st) (CHR ''h'')\<rparr>,
      (replicate (length st) (CHR ''h''), ps) # st)"

definition chain_getParametersArray :: "Hash \<Rightarrow> chain \<Rightarrow> error + jsval list" where
  "chain_getParametersArray h st =
     (case map_of st h of
        None \<Rightarrow> Inl (Error ''unknown parameters hash'')
      | Some ps \<Rightarrow> Inr ps)"

section \<open>Event Correlator\<close>

text \<open>
  The declarations \<open>TransactionLogTruffle\<close> and \<open>TransactionReceiptTruffle\<close> of
  \<open>index.d.ts\<close>, with the fields the correlation reads: the event name and the named
  arguments of a log entry (an object, here an association list) and the ordered log list
  of a receipt. The position of an entry is its position in \<open>logs\<close>.
\<close>

record TransactionLogTruffle =
  address :: string
  args :: "(string \<times> jsval) list"
  event :: string
  logIndex :: nat

record TransactionReceiptTruffle =
  transactionHash :: string
  logs :: "TransactionLogTruffle list"

text \<open>
  Modelled from the spec: the failure \<open>EventNotFoundError\<close> of the error taxonomy, which
  names the event that was looked for. No error class is declared in \<open>index.d.ts\<close>.
\<close>

datatype correlator_error = EventNotFoundError string

text \<open>
  Modelled from the spec: reading the named argument of a log entry. The spec does not
  say what an entry without that argument gives; the property read of JavaScript gives
  \<open>undefined\<close>.
\<close>

definition arg_value :: "TransactionLogTruffle \<Rightarrow> string \<Rightarrow> jsval" where
  "arg_value l arg = (case map_of (args l) arg of None \<Rightarrow> Undefined | Some v \<Rightarrow> v)"

text \<open>
  Modelled from the spec: the entries of the log list whose event name equals
  \<open>eventName\<close>, in log order.
\<close>

definition matching :: "TransactionReceiptTruffle \<Rightarrow> string \<Rightarrow> TransactionLogTruffle list" where
  "matching r eventName = filter (\<lambda>l. event l = eventName) (logs r)"

text \<open>
  Modelled from the spec: the body of \<open>Utils.getValueFromLogs\<close> (and of
  \<open>getValueFromTx\<close>, which has the same contract) is missing; \<open>index.d.ts\<close> only
  declares it. Following section 4.3 of the spec: the logs are filtered by event name; with
  no matching entry the call fails with \<open>EventNotFoundError\<close> naming the event; with
  \<open>index\<close> omitted the last matching entry is selected; with \<open>index\<close> given, the
  entry at that position among all logs is selected (a position beyond the log list holds
  no entry, which is the same failure); the result is the named argument of the selected
  entry. The event name is always given, as in the spec's signature.
\<close>

definition getValueFromLogs ::
  "TransactionReceiptTruffle \<Rightarrow> string \<Rightarrow> string \<Rightarrow> nat option \<Rightarrow> correlator_error + jsval" where
  "getValueFromLogs r arg eventName index =
     (if matching r eventName = [] then Inl (EventNotFoundError eventName)
      else case index of
        None \<Rightarrow> Inr (arg_value (last (matching r eventName)) arg)
      | Some i \<Rightarrow>
          if i < length (logs r) then Inr (arg_value (logs r ! i) arg)
          else Inl (EventNotFoundError eventName))"

text \<open>A receipt with two \<open>Stake\<close> entries around a \<open>Vote\<close> entry, and one without \<open>Stake\<close>.\<close>

definition stake_receipt :: TransactionReceiptTruffle where
  "stake_receipt =
     \<lparr>transactionHash = ''0x01'',
      logs = [\<lparr>address = ''0xaa'', args = [(''_amount'', Str ''1'')], event = ''Stake'', logIndex = 0\<rparr>,
              \<lparr>address = ''0xaa'', args = [(''_vote'', Str ''yes'')], event = ''Vote'', logIndex = 1\<rparr>,
              \<lparr>address = ''0xaa'', args = [(''_amount'', Str ''2'')], event = ''Stake'', logIndex = 2\<rparr>]\<rparr>"

definition vote_receipt :: TransactionReceiptTruffle where
  "vote_receipt =
     \<lparr>transactionHash = ''0x02'',
      logs = [\<lparr>address = ''0xaa'', args = [(''_vote'', Str ''yes'')], event = ''Vote'', logIndex = 0\<rparr>]\<rparr>"

section \<open>Multi-step Orchestrator\<close>

text \<open>
  Modelled from the spec: the bodies of \<open>DaoCreator.forgeOrg\<close> and
  \<open>DaoCreator.setSchemes\<close> are missing (\<open>index.d.ts\<close> declares them, the on-chain
  contract enforces the rules). Section 4.5 of the spec gives each organization the state
  machine \<open>Unforged\<close>, \<open>Forged\<close>, \<open>SchemesSet\<close>; the forged state remembers the
  caller identity that performed \<open>forgeOrg\<close>.
\<close>

datatype org_state = Unforged | Forged Address | SchemesSet

text \<open>
  Modelled from the spec: the two failures of a violated orchestration precondition.
\<close>

datatype orchestrator_error = AlreadyConfiguredError | UnauthorizedError

text \<open>
  Modelled from the spec: the organizations known to the chain, in order of creation. An
  organization (its avatar) is identified by its position; every position beyond the
  list is an organization that was never forged.
\<close>

type_synonym daos = "org_state list"

definition org_at :: "daos \<Rightarrow> nat \<Rightarrow> org_state" where
  "org_at w avatar = (if avatar < length w then w ! avatar else Unforged)"

text \<open>
  Modelled from the spec: \<open>forgeOrg\<close> creates a new organization, forged by the caller,
  and returns its avatar.
\<close>

definition forgeOrg :: "Address \<Rightarrow> daos \<Rightarrow> nat \<times> daos" where
  "forgeOrg caller w = (length w, w @ [Forged caller])"

text \<open>
  Modelled from the spec: a submitted \<open>setSchemes\<close> call. It is valid only in the state
  \<open>Forged\<close> and only for the caller that forged the organization; a call against an
  organization whose schemes are set fails with \<open>AlreadyConfiguredError\<close>, a call by
  a caller other than the one that forged it (for an organization never forged: by any
  caller) fails with \<open>UnauthorizedError\<close>. The wrapper passes the failure on as it is.
  A failed call leaves the state as it was.
\<close>

definition setSchemes :: "Address \<Rightarrow> nat \<Rightarrow> daos \<Rightarrow> (orchestrator_error + unit) \<times> daos" where
  "setSchemes caller avatar w =
     (case org_at w avatar of
        Unforged \<Rightarrow> (Inl UnauthorizedError, w)
      | Forged creator \<Rightarrow>
          if creator = caller then (Inr (), w[avatar := SchemesSet])
          else (Inl UnauthorizedError, w)
      | SchemesSet \<Rightarrow> (Inl AlreadyConfiguredError, w))"

text \<open>
  A sequence of calls by arbitrary callers against arbitrary organizations: \<open>run\<close> gives the
  outcome of each call, \<open>run_state\<close> the state after all of them.
\<close>

datatype call = ForgeOrg Address | SetSchemes Address nat

datatype outcome = Created nat | Done | Failed orchestrator_error

fun exec :: "call \<Rightarrow> daos \<Rightarrow> outcome \<times> daos" where
  "exec (ForgeOrg caller) w = (Created (fst (forgeOrg caller w)), snd (forgeOrg caller w))"
| "exec (SetSchemes caller avatar) w =
     (case fst (setSchemes caller avatar w) of Inl e \<Rightarrow> Failed e | Inr u \<Rightarrow> Done,
      snd (setSchemes caller avatar w))"

fun run :: "call list \<Rightarrow> daos \<Rightarrow> outcome list" where
  "run [] w = []"
| "run (c # cs) w = fst (exec c w) # run cs (snd (exec c w))"

fun run_state :: "call list \<Rightarrow> daos \<Rightarrow> daos" where
  "run_state [] w = w"
| "run_state (c # cs) w = run_state cs (snd (exec c w))"

text \<open>
  A sequence for evaluation: one organization is forged, a foreign caller fails, the forging
  caller sets the schemes and then calls again.
\<close>

definition example_calls :: "call list" where
  "example_calls =
     [ForgeOrg ''alice'', SetSchemes ''bob'' 0, SetSchemes ''alice'' 0, SetSchemes ''alice'' 0]"

section \<open>Properties of setParameters\<close>

lemma setParameters_falsy_token:
  "falsy (token params) \<Longrightarrow>
   setParameters of_string super params st = (Inl (Error ''token must be set''), st)"
  by (simp add: setParameters_def)

lemma setParameters_checked:
  assumes "\<not> falsy (token params)" and "BigNumber_new of_string (cap params) = Inr c"
  shows "setParameters of_string super params st =
     (if lt c (Finite 0)
      then (Inl (Error ''cap must be greater than or equal to zero''), st)
      else super ''TokenCapGC.setParameters'' (txEventContext params) [token params, Big c] st)"
  using assms by (simp add: setParameters_def)

text \<open>
  C4, as stated, fails: with the token field absent the call fails, but the exception is
  an object of the built-in class \<open>Error\<close>, not of a class \<open>MissingParameterError\<close>
  (the wrapper constructs no other exception than \<open>new Error(...)\<close>).
\<close>

theorem C4_missing_token_counterexample:
  "token \<lparr>txEventContext = (), cap = CapString ''100'', token = Undefined\<rparr> = Undefined \<and>
   fst (setParameters decimal_of_string chain_setParameters
     \<lparr>txEventContext = (), cap = CapString ''100'', token = Undefined\<rparr> [])
   = Inl \<lparr>name = ''Error'', message = ''token must be set''\<rparr> \<and>
   name (projl (fst (setParameters decimal_of_string chain_setParameters
     \<lparr>txEventContext = (), cap = CapString ''100'', token = Undefined\<rparr> [])))
   \<noteq> ''MissingParameterError''"
  by (simp add: setParameters_def Error_def)

text \<open>
  C4, amended. A parameter object without the required field \<open>token\<close> (the field reads
  as \<open>undefined\<close>) makes \<open>setParameters\<close> fail with an \<open>Error\<close> whose message names
  the field, \<open>token must be set\<close>; the state of the chain is the one before the call,
  whatever the base class method would do: no transaction is submitted.
\<close>

theorem C4_missing_token_fails:
  "token params = Undefined \<Longrightarrow>
   setParameters of_string super params st =
     (Inl \<lparr>name = ''Error'', message = ''token must be set''\<rparr>, st)"
proof -
  assume "token params = Undefined"
  then have "falsy (token params)" by simp
  then show ?thesis
    by (simp add: setParameters_falsy_token Error_def)
qed

theorem C4_missing_token_fails_witness:
  "token \<lparr>txEventContext = (), cap = CapString ''100'', token = Undefined\<rparr> = Undefined \<and>
   setParameters decimal_of_string chain_setParameters
     \<lparr>txEventContext = (), cap = CapString ''100'', token = Undefined\<rparr> []
   = (Inl \<lparr>name = ''Error'', message = ''token must be set''\<rparr>, [])"
  using C4_missing_token_fails
    [of "\<lparr>txEventContext = (), cap = CapString ''100'', token = Undefined\<rparr>"
        decimal_of_string chain_setParameters "[]"]
  by simp

text \<open>
  C10. The presence check tests the falsiness of the value: an empty string, \<open>null\<close> and
  \<open>undefined\<close> as token all give the failure \<open>token must be set\<close>, which is the
  result for the same parameters with the token field absent; the chain state is untouched,
  so the call fails before anything is encoded or submitted.
\<close>

theorem C10_falsy_token_as_absent:
  "token params = Str [] \<or> token params = Null \<or> token params = Undefined \<Longrightarrow>
   setParameters of_string super params st = (Inl (Error ''token must be set''), st) \<and>
   setParameters of_string super params st =
     setParameters of_string super (params\<lparr>token := Undefined\<rparr>) st"
proof -
  assume "token params = Str [] \<or> token params = Null \<or> token params = Undefined"
  then have "falsy (token params)" by auto
  then have "setParameters of_string super params st = (Inl (Error ''token must be set''), st)"
    by (rule setParameters_falsy_token)
  moreover have "setParameters of_string super (params\<lparr>token := Undefined\<rparr>) st
      = (Inl (Error ''token must be set''), st)"
    by (rule setParameters_falsy_token) simp
  ultimately show ?thesis by simp
qed

theorem C10_falsy_token_as_absent_witness:
  "(token \<lparr>txEventContext = (), cap = CapString ''7'', token = Str []\<rparr> = Str [] \<or>
    token \<lparr>txEventContext = (), cap = CapString ''7'', token = Str []\<rparr> = Null \<or>
    token \<lparr>txEventContext = (), cap = CapString ''7'', token = Str []\<rparr> = Undefined) \<and>
   setParameters decimal_of_string chain_setParameters
     \<lparr>txEventContext = (), cap = CapString ''7'', token = Str []\<rparr> []
   = (Inl (Error ''token must be set''), []) \<and>
   setParameters decimal_of_string chain_setParameters
     \<lparr>txEventContext = (), cap = CapString ''7'', token = Str []\<rparr> []
   = setParameters decimal_of_string chain_setParameters
     \<lparr>txEventContext = (), cap = CapString ''7'', token = Undefined\<rparr> []"
proof -
  have p: "token \<lparr>txEventContext = (), cap = CapString ''7'', token = Str []\<rparr> = Str [] \<or>
    token \<lparr>txEventContext = (), cap = CapString ''7'', token = Str []\<rparr> = Null \<or>
    token \<lparr>txEventContext = (), cap = CapString ''7'', token = Str []\<rparr> = Undefined"
    by simp
  have q: "setParameters decimal_of_string chain_setParameters
     \<lparr>txEventContext = (), cap = CapString ''7'', token = Str []\<rparr> []
   = (Inl (Error ''token must be set''), []) \<and>
   setParameters decimal_of_string chain_setParameters
     \<lparr>txEventContext = (), cap = CapString ''7'', token = Str []\<rparr> []
   = setParameters decimal_of_string chain_setParameters
     (\<lparr>txEventContext = (), cap = CapString ''7'', token = Str []\<rparr>\<lparr>token := Undefined\<rparr>) []"
    by (rule C10_falsy_token_as_absent [OF p])
  have u: "\<lparr>txEventContext = (), cap = CapString ''7'', token = Str []\<rparr>\<lparr>token := Undefined\<rparr>
    = \<lparr>txEventContext = (), cap = CapString ''7'', token = Undefined\<rparr>"
    by simp
  from p q show ?thesis unfolding u by (rule conjI)
qed

text \<open>
  C9. With the token set and a cap of zero, given as the \<open>BigNumber\<close> zero or as the
  string \<open>0\<close> (which the library reads as zero), both checks pass and \<open>setParameters\<close>
  is exactly the call of the base class method with the arguments token, then cap zero:
  zero is not below zero, so the cap check lets it pass.
\<close>

theorem C9_zero_cap_accepted:
  assumes "\<not> falsy (token params)"
    and "cap params = CapBigNumber (Finite 0) \<or>
         (cap params = CapString ''0'' \<and> of_string ''0'' = Inr (Finite 0))"
  shows "setParameters of_string super params st =
     super ''TokenCapGC.setParameters'' (txEventContext params)
       [token params, Big (Finite 0)] st"
proof -
  from assms(2) have "BigNumber_new of_string (cap params) = Inr (Finite 0)"
    by auto
  with assms(1) show ?thesis
    by (simp add: setParameters_checked)
qed

theorem C9_zero_cap_accepted_witness:
  "\<not> falsy (token \<lparr>txEventContext = (), cap = CapString ''0'', token = Str ''0xabc''\<rparr>) \<and>
   decimal_of_string ''0'' = Inr (Finite 0) \<and>
   setParameters decimal_of_string chain_setParameters
     \<lparr>txEventContext = (), cap = CapString ''0'', token = Str ''0xabc''\<rparr> []
   = (Inr \<lparr>tx = (), result = []\<rparr>, [([], [Str ''0xabc'', Big (Finite 0)])]) \<and>
   setParameters decimal_of_string chain_setParameters
     \<lparr>txEventContext = (), cap = CapBigNumber (Finite 0), token = Str ''0xabc''\<rparr> []
   = (Inr \<lparr>tx = (), result = []\<rparr>, [([], [Str ''0xabc'', Big (Finite 0)])])"
proof -
  have z: "decimal_of_string ''0'' = Inr (Finite 0)"
    by (simp add: decimal_of_string_def)
  show ?thesis
    using z
      C9_zero_cap_accepted
        [of "\<lparr>txEventContext = (), cap = CapString ''0'', token = Str ''0xabc''\<rparr>"
            decimal_of_string chain_setParameters "[]"]
      C9_zero_cap_accepted
        [of "\<lparr>txEventContext = (), cap = CapBigNumber (Finite 0), token = Str ''0xabc''\<rparr>"
            decimal_of_string chain_setParameters "[]"]
    by (simp add: chain_setParameters_def)
qed

text \<open>
  C1. When the library reads the decimal string \<open>s\<close> as the value \<open>v\<close>, the call of
  \<open>setParameters\<close> with the cap given as the string \<open>s\<close> and the call with the cap
  given as the \<open>BigNumber\<close> object \<open>v\<close> have the same outcome on the same state,
  and that outcome is determined by the logical parameters alone: for a valid input (the
  token set, \<open>v\<close> not below zero) both are the call of the base class method with the
  argument tuple token, then the normalised cap \<open>v\<close>; with the token missing both are
  the token failure; with \<open>v\<close> below zero both are the cap failure.
\<close>

theorem C1_string_and_BigNumber_cap_agree:
  assumes "BigNumber_new of_string (CapString s) = Inr v"
  shows "setParameters of_string super (params\<lparr>cap := CapString s\<rparr>) st =
      (if falsy (token params) then (Inl (Error ''token must be set''), st)
       else if lt v (Finite 0)
         then (Inl (Error ''cap must be greater than or equal to zero''), st)
         else super ''TokenCapGC.setParameters'' (txEventContext params)
                [token params, Big v] st) \<and>
    setParameters of_string super (params\<lparr>cap := CapBigNumber v\<rparr>) st =
      (if falsy (token params) then (Inl (Error ''token must be set''), st)
       else if lt v (Finite 0)
         then (Inl (Error ''cap must be greater than or equal to zero''), st)
         else super ''TokenCapGC.setParameters'' (txEventContext params)
                [token params, Big v] st) \<and>
    setParameters of_string super (params\<lparr>cap := CapString s\<rparr>) st =
    setParameters of_string super (params\<lparr>cap := CapBigNumber v\<rparr>) st"
proof -
  from assms have a: "of_string s = Inr v" by simp
  have str: "setParameters of_string super (params\<lparr>cap := CapString s\<rparr>) st =
      (if falsy (token params) then (Inl (Error ''token must be set''), st)
       else if lt v (Finite 0)
         then (Inl (Error ''cap must be greater than or equal to zero''), st)
         else super ''TokenCapGC.setParameters'' (txEventContext params)
                [token params, Big v] st)"
    using a by (simp add: setParameters_def)
  have big: "setParameters of_string super (params\<lparr>cap := CapBigNumber v\<rparr>) st =
      (if falsy (token params) then (Inl (Error ''token must be set''), st)
       else if lt v (Finite 0)
         then (Inl (Error ''cap must be greater than or equal to zero''), st)
         else super ''TokenCapGC.setParameters'' (txEventContext params)
                [token params, Big v] st)"
    by (simp add: setParameters_def)
  from str big have "setParameters of_string super (params\<lparr>cap := CapString s\<rparr>) st =
      setParameters of_string super (params\<lparr>cap := CapBigNumber v\<rparr>) st"
    by (rule trans [OF _ sym])
  with str big show ?thesis by (intro conjI)
qed

theorem C1_string_and_BigNumber_cap_agree_witness:
  "BigNumber_new decimal_of_string (CapString ''1000'') = Inr (Finite 1000) \<and>
   setParameters decimal_of_string chain_setParameters
     \<lparr>txEventContext = (), cap = CapString ''1000'', token = Str ''0xabc''\<rparr> [] =
     (Inr \<lparr>tx = (), result = []\<rparr>, [([], [Str ''0xabc'', Big (Finite 1000)])]) \<and>
   setParameters decimal_of_string chain_setParameters
     \<lparr>txEventContext = (), cap = CapBigNumber (Finite 1000), token = Str ''0xabc''\<rparr> [] =
     (Inr \<lparr>tx = (), result = []\<rparr>, [([], [Str ''0xabc'', Big (Finite 1000)])]) \<and>
   setParameters decimal_of_string chain_setParameters
     \<lparr>txEventContext = (), cap = CapString ''1000'', token = Str ''0xabc''\<rparr> [] =
   setParameters decimal_of_string chain_setParameters
     \<lparr>txEventContext = (), cap = CapBigNumber (Finite 1000), token = Str ''0xabc''\<rparr> []"
proof -
  have r: "BigNumber_new decimal_of_string (CapString ''1000'') = Inr (Finite 1000)"
    by (simp add: decimal_of_string_def)
  note t = C1_string_and_BigNumber_cap_agree
    [OF r, of chain_setParameters
       "\<lparr>txEventContext = (), cap = CapString ''1000'', token = Str ''0xabc''\<rparr>" "[]"]
  have call: "chain_setParameters ''TokenCapGC.setParameters'' ()
      [Str ''0xabc'', Big (Finite 1000)] [] =
      (Inr \<lparr>tx = (), result = []\<rparr>, [([], [Str ''0xabc'', Big (Finite 1000)])])"
    by (simp add: chain_setParameters_def)
  from t have s1: "setParameters decimal_of_string chain_setParameters
     \<lparr>txEventContext = (), cap = CapString ''1000'', token = Str ''0xabc''\<rparr> [] =
     (Inr \<lparr>tx = (), result = []\<rparr>, [([], [Str ''0xabc'', Big (Finite 1000)])])"
    by (simp add: call)
  from t have s2: "setParameters decimal_of_string chain_setParameters
     \<lparr>txEventContext = (), cap = CapBigNumber (Finite 1000), token = Str ''0xabc''\<rparr> [] =
     (Inr \<lparr>tx = (), result = []\<rparr>, [([], [Str ''0xabc'', Big (Finite 1000)])])"
    by (simp add: call)
  from s1 s2 have s3: "setParameters decimal_of_string chain_setParameters
     \<lparr>txEventContext = (), cap = CapString ''1000'', token = Str ''0xabc''\<rparr> [] =
   setParameters decimal_of_string chain_setParameters
     \<lparr>txEventContext = (), cap = CapBigNumber (Finite 1000), token = Str ''0xabc''\<rparr> []"
    by simp
  from r s1 s2 s3 show ?thesis by (intro conjI)
qed

text \<open>
  C3, as stated, fails: the token check comes first, so an input with a negative cap and
  no usable token fails with the token error, not with an error about the cap; and the
  exception is an object of the built-in class \<open>Error\<close>, not of a class
  \<open>InvalidParameterError\<close>.
\<close>

theorem C3_negative_cap_counterexample:
  "BigNumber_new decimal_of_string
     (cap \<lparr>txEventContext = (), cap = CapString ''-1'', token = Str []\<rparr>) = Inr (Finite (- 1)) \<and>
   lt (Finite (- 1)) (Finite 0) \<and>
   fst (setParameters decimal_of_string chain_setParameters
     \<lparr>txEventContext = (), cap = CapString ''-1'', token = Str []\<rparr> [])
   = Inl \<lparr>name = ''Error'', message = ''token must be set''\<rparr> \<and>
   message (projl (fst (setParameters decimal_of_string chain_setParameters
     \<lparr>txEventContext = (), cap = CapString ''-1'', token = Str []\<rparr> [])))
   \<noteq> ''cap must be greater than or equal to zero'' \<and>
   name (projl (fst (setParameters decimal_of_string chain_setParameters
     \<lparr>txEventContext = (), cap = CapString ''-1'', token = Str []\<rparr> [])))
   \<noteq> ''InvalidParameterError''"
  by (simp add: setParameters_def decimal_of_string_def Error_def)

text \<open>
  C3, amended. With the token set and a cap that normalises to a value below zero,
  \<open>setParameters\<close> fails with an \<open>Error\<close> whose message names the field and the
  constraint, \<open>cap must be greater than or equal to zero\<close>, and the chain state is the one
  before the call, whatever the base class method would do: no call reaches the network.
\<close>

theorem C3_negative_cap_fails:
  assumes "\<not> falsy (token params)"
    and "BigNumber_new of_string (cap params) = Inr c"
    and "lt c (Finite 0)"
  shows "setParameters of_string super params st =
     (Inl \<lparr>name = ''Error'', message = ''cap must be greater than or equal to zero''\<rparr>, st)"
  using assms by (simp add: setParameters_checked Error_def)

theorem C3_negative_cap_fails_witness:
  "\<not> falsy (token \<lparr>txEventContext = (), cap = CapString ''-5'', token = Str ''0xabc''\<rparr>) \<and>
   BigNumber_new decimal_of_string
     (cap \<lparr>txEventContext = (), cap = CapString ''-5'', token = Str ''0xabc''\<rparr>) = Inr (Finite (- 5)) \<and>
   lt (Finite (- 5)) (Finite 0) \<and>
   setParameters decimal_of_string chain_setParameters
     \<lparr>txEventContext = (), cap = CapString ''-5'', token = Str ''0xabc''\<rparr> []
   = (Inl \<lparr>name = ''Error'', message = ''cap must be greater than or equal to zero''\<rparr>, [])"
proof -
  have r: "BigNumber_new decimal_of_string
     (cap \<lparr>txEventContext = (), cap = CapString ''-5'', token = Str ''0xabc''\<rparr>) = Inr (Finite (- 5))"
    by (simp add: decimal_of_string_def)
  have t: "\<not> falsy (token \<lparr>txEventContext = (), cap = CapString ''-5'', token = Str ''0xabc''\<rparr>)"
    by simp
  have l: "lt (Finite (- 5)) (Finite 0)" by simp
  show ?thesis
    by (rule conjI [OF t conjI [OF r conjI [OF l
          C3_negative_cap_fails [OF t r l, of chain_setParameters "[]"]]]])
qed

section \<open>Round trip through the ordered argument list\<close>

lemma chain_store_read:
  "chain_setParameters functionName ctx ps s = (Inr r, s') \<Longrightarrow>
   chain_getParametersArray (result r) s' = Inr ps"
  by (auto simp: chain_setParameters_def chain_getParametersArray_def)

text \<open>
  C2. Let the chain collaborator return, for the hash of a successful
  \<open>_setParameters\<close>, the argument list that was stored. Then, whenever
  \<open>setParameters\<close> succeeds with a hash, \<open>getParameters\<close> of that hash gives back the
  logical parameters: \<open>token\<close> is the token passed in and \<open>cap\<close> is the normalised cap.
  The order token, cap of the encoder is the order position 0, position 1 of the decoder.
\<close>

theorem C2_set_then_get_parameters:
  assumes store: "\<And>functionName ctx ps s r s'.
      super functionName ctx ps s = (Inr r, s') \<Longrightarrow> getParametersArray (result r) s' = Inr ps"
    and ok: "setParameters of_string super params st = (Inr r, st')"
  shows "\<exists>c. BigNumber_new of_string (cap params) = Inr c \<and>
     getParameters getParametersArray (result r) st' =
       Inr \<lparr>r_cap = Big c, r_token = token params\<rparr>"
proof (cases "BigNumber_new of_string (cap params)")
  case (Inl e)
  with ok show ?thesis
    by (simp add: setParameters_def split: if_splits)
next
  case (Inr c)
  from ok have t: "\<not> falsy (token params)"
    by (auto simp: setParameters_def)
  from ok t Inr have call:
    "super ''TokenCapGC.setParameters'' (txEventContext params) [token params, Big c] st
       = (Inr r, st')"
    by (simp add: setParameters_checked split: if_splits)
  have "getParametersArray (result r) st' = Inr [token params, Big c]"
    by (rule store [OF call])
  then have "getParameters getParametersArray (result r) st' =
       Inr \<lparr>r_cap = Big c, r_token = token params\<rparr>"
    by (simp add: getParameters_def js_index_def)
  with Inr show ?thesis by simp
qed

theorem C2_set_then_get_parameters_witness:
  "setParameters decimal_of_string chain_setParameters
     \<lparr>txEventContext = (), cap = CapString ''1000'', token = Str ''0xabc''\<rparr> []
   = (Inr \<lparr>tx = (), result = []\<rparr>, [([], [Str ''0xabc'', Big (Finite 1000)])]) \<and>
   (\<exists>c. BigNumber_new decimal_of_string (CapString ''1000'') = Inr c \<and>
     getParameters chain_getParametersArray [] [([], [Str ''0xabc'', Big (Finite 1000)])] =
       Inr \<lparr>r_cap = Big c, r_token = Str ''0xabc''\<rparr>)"
proof -
  have ok: "setParameters decimal_of_string chain_setParameters
     \<lparr>txEventContext = (), cap = CapString ''1000'', token = Str ''0xabc''\<rparr> []
   = (Inr \<lparr>tx = (), result = []\<rparr>, [([], [Str ''0xabc'', Big (Finite 1000)])])"
    by (simp add: setParameters_def decimal_of_string_def chain_setParameters_def)
  show ?thesis
    using ok
      C2_set_then_get_parameters
        [of chain_setParameters chain_getParametersArray decimal_of_string
            "\<lparr>txEventContext = (), cap = CapString ''1000'', token = Str ''0xabc''\<rparr>" "[]"
            "\<lparr>tx = (), result = []\<rparr>" "[([], [Str ''0xabc'', Big (Finite 1000)])]",
         OF chain_store_read ok]
    by simp
qed

section \<open>Properties of the Event Correlator\<close>

lemma last_filter_position:
  "filter P xs \<noteq> [] \<Longrightarrow>
   \<exists>i<length xs. P (xs ! i) \<and> (\<forall>j<length xs. i < j \<longrightarrow> \<not> P (xs ! j)) \<and>
     last (filter P xs) = xs ! i"
proof (induction xs rule: rev_induct)
  case Nil
  then show ?case by simp
next
  case (snoc x xs)
  show ?case
  proof (cases "P x")
    case True
    then have "P ((xs @ [x]) ! length xs) \<and>
       (\<forall>j<length (xs @ [x]). length xs < j \<longrightarrow> \<not> P ((xs @ [x]) ! j)) \<and>
       last (filter P (xs @ [x])) = (xs @ [x]) ! length xs"
      by simp
    then show ?thesis
      by (intro exI [of _ "length xs"]) simp
  next
    case False
    with snoc.prems have "filter P xs \<noteq> []" by simp
    from snoc.IH [OF this] obtain i where i: "i < length xs" "P (xs ! i)"
      "\<forall>j<length xs. i < j \<longrightarrow> \<not> P (xs ! j)" "last (filter P xs) = xs ! i"
      by blast
    have "\<forall>j<length (xs @ [x]). i < j \<longrightarrow> \<not> P ((xs @ [x]) ! j)"
    proof (intro allI impI)
      fix j assume "j < length (xs @ [x])" "i < j"
      then show "\<not> P ((xs @ [x]) ! j)"
        using i(3) False by (cases "j < length xs") (auto simp: nth_append)
    qed
    with i False show ?thesis
      by (intro exI [of _ i]) (simp add: nth_append)
  qed
qed

text \<open>
  C5. When two or more log entries match the event name and \<open>index\<close> is omitted, the
  value returned is the named argument of the matching entry at the greatest position of
  the log list: some position \<open>i\<close> holds a matching entry, no later position does, and
  the result is the argument read from the entry at \<open>i\<close>.
\<close>

theorem C5_last_matching_entry:
  assumes "2 \<le> length (matching r eventName)"
  shows "\<exists>i<length (logs r). event (logs r ! i) = eventName \<and>
     (\<forall>j<length (logs r). i < j \<longrightarrow> event (logs r ! j) \<noteq> eventName) \<and>
     getValueFromLogs r arg eventName None = Inr (arg_value (logs r ! i) arg)"
proof -
  from assms have ne: "filter (\<lambda>l. event l = eventName) (logs r) \<noteq> []"
    by (auto simp: matching_def)
  from last_filter_position [OF ne] obtain i where
    "i < length (logs r)" "event (logs r ! i) = eventName"
    "\<forall>j<length (logs r). i < j \<longrightarrow> event (logs r ! j) \<noteq> eventName"
    "last (matching r eventName) = logs r ! i"
    unfolding matching_def by blast
  moreover from ne have "getValueFromLogs r arg eventName None
      = Inr (arg_value (last (matching r eventName)) arg)"
    by (simp add: getValueFromLogs_def matching_def)
  ultimately show ?thesis by auto
qed

theorem C5_last_matching_entry_witness:
  "2 \<le> length (matching stake_receipt ''Stake'') \<and>
   (\<exists>i<length (logs stake_receipt). event (logs stake_receipt ! i) = ''Stake'' \<and>
     (\<forall>j<length (logs stake_receipt). i < j \<longrightarrow> event (logs stake_receipt ! j) \<noteq> ''Stake'') \<and>
     getValueFromLogs stake_receipt ''_amount'' ''Stake'' None
       = Inr (arg_value (logs stake_receipt ! i) ''_amount'')) \<and>
   getValueFromLogs stake_receipt ''_amount'' ''Stake'' None = Inr (Str ''2'')"
proof -
  have h: "2 \<le> length (matching stake_receipt ''Stake'')"
    by (simp add: matching_def stake_receipt_def)
  have v: "getValueFromLogs stake_receipt ''_amount'' ''Stake'' None = Inr (Str ''2'')"
    by (simp add: getValueFromLogs_def matching_def stake_receipt_def arg_value_def)
  from h C5_last_matching_entry [OF h, of "''_amount''"] v show ?thesis
    by (intro conjI)
qed

text \<open>
  C6. When no log entry matches the event name, the call fails with
  \<open>EventNotFoundError\<close> naming the event, with or without an index: the result is a
  failure, not a value.
\<close>

theorem C6_no_matching_entry_fails:
  "matching r eventName = [] \<Longrightarrow>
   getValueFromLogs r arg eventName index = Inl (EventNotFoundError eventName)"
  by (simp add: getValueFromLogs_def)

theorem C6_no_matching_entry_fails_witness:
  "matching vote_receipt ''Stake'' = [] \<and>
   getValueFromLogs vote_receipt ''_amount'' ''Stake'' None = Inl (EventNotFoundError ''Stake'') \<and>
   getValueFromLogs vote_receipt ''_amount'' ''Stake'' (Some 0) = Inl (EventNotFoundError ''Stake'')"
proof -
  have h: "matching vote_receipt ''Stake'' = []"
    by (simp add: matching_def vote_receipt_def)
  from h C6_no_matching_entry_fails [OF h, of "''_amount''" None]
    C6_no_matching_entry_fails [OF h, of "''_amount''" "Some 0"]
  show ?thesis by (intro conjI)
qed

section \<open>Properties of the Multi-step Orchestrator\<close>

lemma org_at_update:
  "org_at (w[a := s]) b = (if a = b \<and> a < length w then s else org_at w b)"
  by (auto simp: org_at_def)

lemma org_at_snoc: "org_at (w @ [s]) b = (if b = length w then s else org_at w b)"
  by (auto simp: org_at_def nth_append)

lemma fst_forgeOrg: "fst (forgeOrg c w) = length w"
  by (simp add: forgeOrg_def)

lemma org_at_forgeOrg:
  "org_at (snd (forgeOrg c w)) b = (if b = length w then Forged c else org_at w b)"
  by (simp add: forgeOrg_def org_at_snoc)

lemma org_at_setSchemes:
  "org_at (snd (setSchemes c a w)) b =
     (if a = b \<and> org_at w a = Forged c then SchemesSet else org_at w b)"
proof (cases "org_at w a")
  case Unforged
  then show ?thesis by (simp add: setSchemes_def)
next
  case (Forged creator)
  then have "a < length w" by (auto simp: org_at_def split: if_splits)
  with Forged show ?thesis by (simp add: setSchemes_def org_at_update)
next
  case SchemesSet
  then show ?thesis by (simp add: setSchemes_def)
qed

lemma setSchemes_Done:
  assumes ok: "setSchemes c a w = (Inr u, w')"
  shows "org_at w a = Forged c \<and> org_at w' a = SchemesSet"
proof -
  from ok have f: "org_at w a = Forged c"
    by (auto simp: setSchemes_def split: org_state.splits if_splits)
  from ok have "w' = snd (setSchemes c a w)" by simp
  with f show ?thesis by (simp add: org_at_setSchemes)
qed

lemma setSchemes_again:
  "org_at w a = SchemesSet \<Longrightarrow> setSchemes c a w = (Inl AlreadyConfiguredError, w)"
  by (simp add: setSchemes_def)

lemma exec_Done:
  assumes "fst (exec (SetSchemes c a) w) = Done"
  shows "org_at w a = Forged c \<and> org_at (snd (exec (SetSchemes c a) w)) a = SchemesSet"
proof -
  from assms obtain u where "setSchemes c a w = (Inr u, snd (exec (SetSchemes c a) w))"
    by (cases "setSchemes c a w") (auto split: sum.splits)
  then show ?thesis by (rule setSchemes_Done)
qed

lemma exec_keeps_SchemesSet:
  assumes s: "org_at w a = SchemesSet"
  shows "org_at (snd (exec x w)) a = SchemesSet"
proof (cases x)
  case (ForgeOrg c)
  from s have "a < length w" by (auto simp: org_at_def split: if_splits)
  with s ForgeOrg show ?thesis by (simp add: org_at_forgeOrg)
next
  case (SetSchemes c b)
  with s show ?thesis by (simp add: org_at_setSchemes)
qed

lemma run_state_keeps_SchemesSet:
  "org_at w a = SchemesSet \<Longrightarrow> org_at (run_state cs w) a = SchemesSet"
  by (induction cs arbitrary: w) (auto simp: exec_keeps_SchemesSet)

lemma run_after_SchemesSet:
  "org_at w a = SchemesSet \<Longrightarrow> j < length cs \<Longrightarrow> cs ! j = SetSchemes c a \<Longrightarrow>
   run cs w ! j = Failed AlreadyConfiguredError"
proof (induction cs arbitrary: w j)
  case Nil
  then show ?case by simp
next
  case (Cons x cs)
  show ?case
  proof (cases j)
    case 0
    with Cons.prems show ?thesis by (simp add: setSchemes_again)
  next
    case (Suc j')
    with Cons.prems Cons.IH [OF exec_keeps_SchemesSet [OF Cons.prems(1)], of j'] show ?thesis
      by simp
  qed
qed

lemma run_at_most_once:
  "k < j \<Longrightarrow> j < length cs \<Longrightarrow> cs ! k = SetSchemes c a \<Longrightarrow> run cs w ! k = Done \<Longrightarrow>
   cs ! j = SetSchemes c' a \<Longrightarrow> run cs w ! j = Failed AlreadyConfiguredError"
proof (induction cs arbitrary: w k j)
  case Nil
  then show ?case by simp
next
  case (Cons x cs)
  from Cons.prems(1) obtain j' where j: "j = Suc j'" by (cases j) auto
  show ?case
  proof (cases k)
    case 0
    with Cons.prems have x: "x = SetSchemes c a" and d: "fst (exec x w) = Done" by auto
    from d have "org_at (snd (exec x w)) a = SchemesSet"
      unfolding x by (rule exec_Done [THEN conjunct2])
    from run_after_SchemesSet [OF this, of j' cs c'] Cons.prems j show ?thesis by simp
  next
    case (Suc k')
    with Cons.prems j Cons.IH [of k' j' "snd (exec x w)"] show ?thesis by simp
  qed
qed

lemma run_state_after_Done:
  "k < n \<Longrightarrow> n \<le> length cs \<Longrightarrow> cs ! k = SetSchemes c a \<Longrightarrow> run cs w ! k = Done \<Longrightarrow>
   org_at (run_state (take n cs) w) a = SchemesSet"
proof (induction cs arbitrary: w k n)
  case Nil
  then show ?case by simp
next
  case (Cons x cs)
  from Cons.prems(1) obtain n' where n: "n = Suc n'" by (cases n) auto
  show ?case
  proof (cases k)
    case 0
    with Cons.prems have x: "x = SetSchemes c a" and d: "fst (exec x w) = Done" by auto
    from d have "org_at (snd (exec x w)) a = SchemesSet"
      unfolding x by (rule exec_Done [THEN conjunct2])
    then show ?thesis
      using n by (simp add: run_state_keeps_SchemesSet)
  next
    case (Suc k')
    with Cons.prems n Cons.IH [of k' n' "snd (exec x w)"] show ?thesis by simp
  qed
qed

lemma exec_Forged_origin:
  "org_at (snd (exec x w)) a = Forged c \<Longrightarrow>
   org_at w a = Forged c \<or> (x = ForgeOrg c \<and> fst (exec x w) = Created a)"
  by (cases x) (auto simp: org_at_forgeOrg org_at_setSchemes fst_forgeOrg split: if_splits)

lemma run_Done_origin:
  "k < length cs \<Longrightarrow> cs ! k = SetSchemes c a \<Longrightarrow> run cs w ! k = Done \<Longrightarrow>
   org_at w a = Forged c \<or> (\<exists>i<k. cs ! i = ForgeOrg c \<and> run cs w ! i = Created a)"
proof (induction cs arbitrary: w k)
  case Nil
  then show ?case by simp
next
  case (Cons x cs)
  show ?case
  proof (cases k)
    case 0
    with Cons.prems have "fst (exec (SetSchemes c a) w) = Done" by simp
    then have "org_at w a = Forged c" by (rule exec_Done [THEN conjunct1])
    then show ?thesis by simp
  next
    case (Suc k')
    with Cons.prems Cons.IH [of k' "snd (exec x w)"]
    have "org_at (snd (exec x w)) a = Forged c \<or>
        (\<exists>i<k'. cs ! i = ForgeOrg c \<and> run cs (snd (exec x w)) ! i = Created a)"
      by simp
    then show ?thesis
    proof
      assume "org_at (snd (exec x w)) a = Forged c"
      from exec_Forged_origin [OF this] show ?thesis
      proof
        assume "org_at w a = Forged c"
        then show ?thesis by simp
      next
        assume "x = ForgeOrg c \<and> fst (exec x w) = Created a"
        then have "0 < k \<and> (x # cs) ! 0 = ForgeOrg c \<and> run (x # cs) w ! 0 = Created a"
          using Suc by auto
        then show ?thesis by blast
      qed
    next
      assume "\<exists>i<k'. cs ! i = ForgeOrg c \<and> run cs (snd (exec x w)) ! i = Created a"
      then obtain i where "i < k'" "cs ! i = ForgeOrg c"
        "run cs (snd (exec x w)) ! i = Created a" by blast
      then have "Suc i < k \<and> (x # cs) ! Suc i = ForgeOrg c \<and> run (x # cs) w ! Suc i = Created a"
        using Suc by simp
      then show ?thesis by blast
    qed
  qed
qed

text \<open>
  C8. In every sequence of \<open>forgeOrg\<close> and \<open>setSchemes\<close> calls that starts with no
  organization, let call \<open>k\<close> be a \<open>setSchemes\<close> by caller \<open>c\<close> against organization
  \<open>a\<close> that succeeds. Then
  \<^item> an earlier \<open>forgeOrg\<close> by the same caller \<open>c\<close> created \<open>a\<close>;
  \<^item> no other \<open>setSchemes\<close> against \<open>a\<close> in the sequence succeeds, by any caller;
  \<^item> every later \<open>setSchemes\<close> against \<open>a\<close> fails with \<open>AlreadyConfiguredError\<close>;
  \<^item> after every later call, the state of \<open>a\<close> is \<open>SchemesSet\<close>;
  \<^item> a \<open>setSchemes\<close> against an organization in state \<open>SchemesSet\<close> fails with
    \<open>AlreadyConfiguredError\<close> and leaves the whole state as it was.
\<close>

theorem C8_setSchemes_at_most_once:
  assumes k: "k < length cs" and call: "cs ! k = SetSchemes c a" and ok: "run cs [] ! k = Done"
  shows "(\<exists>i<k. cs ! i = ForgeOrg c \<and> run cs [] ! i = Created a) \<and>
    (\<forall>j<length cs. \<forall>c'. j \<noteq> k \<and> cs ! j = SetSchemes c' a \<longrightarrow> run cs [] ! j \<noteq> Done) \<and>
    (\<forall>j<length cs. \<forall>c'. k < j \<and> cs ! j = SetSchemes c' a \<longrightarrow>
        run cs [] ! j = Failed AlreadyConfiguredError) \<and>
    (\<forall>n\<le>length cs. k < n \<longrightarrow> org_at (run_state (take n cs) []) a = SchemesSet) \<and>
    (\<forall>w c'. org_at w a = SchemesSet \<longrightarrow>
        setSchemes c' a w = (Inl AlreadyConfiguredError, w) \<and>
        org_at (snd (setSchemes c' a w)) a = SchemesSet)"
proof (intro conjI allI impI)
  have "org_at [] a = Unforged" by (simp add: org_at_def)
  with run_Done_origin [OF k call ok]
  show "\<exists>i<k. cs ! i = ForgeOrg c \<and> run cs [] ! i = Created a" by simp
next
  fix j c'
  assume j: "j < length cs" and other: "j \<noteq> k \<and> cs ! j = SetSchemes c' a"
  show "run cs [] ! j \<noteq> Done"
  proof (cases "k < j")
    case True
    from run_at_most_once [OF True j call ok, of c'] other show ?thesis by simp
  next
    case False
    with other have lt: "j < k" by simp
    show ?thesis
    proof
      assume "run cs [] ! j = Done"
      from run_at_most_once [OF lt k _ this call] other
      have "run cs [] ! k = Failed AlreadyConfiguredError" by simp
      with ok show False by simp
    qed
  qed
next
  fix j c'
  assume "j < length cs" and "k < j \<and> cs ! j = SetSchemes c' a"
  with run_at_most_once [OF _ _ call ok, of j c']
  show "run cs [] ! j = Failed AlreadyConfiguredError" by simp
next
  fix n
  assume "n \<le> length cs" and "k < n"
  then show "org_at (run_state (take n cs) []) a = SchemesSet"
    using call ok by (simp add: run_state_after_Done)
next
  fix w c'
  assume "org_at w a = SchemesSet"
  then show "setSchemes c' a w = (Inl AlreadyConfiguredError, w)"
    by (rule setSchemes_again)
next
  fix w c'
  assume "org_at w a = SchemesSet"
  then show "org_at (snd (setSchemes c' a w)) a = SchemesSet"
    by (simp add: org_at_setSchemes)
qed

theorem C8_setSchemes_at_most_once_witness:
  "2 < length example_calls \<and>
   example_calls ! 2 = SetSchemes ''alice'' 0 \<and>
   run example_calls [] ! 2 = Done \<and>
   (\<exists>i<2. example_calls ! i = ForgeOrg ''alice'' \<and> run example_calls [] ! i = Created 0) \<and>
   run example_calls [] ! 1 \<noteq> Done \<and>
   run example_calls [] ! 3 = Failed AlreadyConfiguredError \<and>
   org_at (run_state (take 4 example_calls) []) 0 = SchemesSet \<and>
   run example_calls [] = [Created 0, Failed UnauthorizedError, Done, Failed AlreadyConfiguredError]"
proof -
  have r: "run example_calls [] =
      [Created 0, Failed UnauthorizedError, Done, Failed AlreadyConfiguredError]"
    by (simp add: example_calls_def forgeOrg_def setSchemes_def org_at_def)
  have h1: "2 < length example_calls"
    by (simp add: example_calls_def)
  have h2: "example_calls ! 2 = SetSchemes ''alice'' 0"
    by (simp add: example_calls_def)
  have h3: "run example_calls [] ! 2 = Done"
    by (simp add: r)
  note t = C8_setSchemes_at_most_once [OF h1 h2 h3]
  have before: "1 < length example_calls" "(1::nat) \<noteq> 2"
    "example_calls ! 1 = SetSchemes ''bob'' 0"
    by (simp_all add: example_calls_def)
  have after: "3 < length example_calls" "(2::nat) < 3"
    "example_calls ! 3 = SetSchemes ''alice'' 0"
    by (simp_all add: example_calls_def)
  have fin: "4 \<le> length example_calls" "(2::nat) < 4"
    by (simp_all add: example_calls_def)
  from t have t1: "\<exists>i<2. example_calls ! i = ForgeOrg ''alice'' \<and> run example_calls [] ! i = Created 0"
    by (rule conjunct1)
  from t before have t2: "run example_calls [] ! 1 \<noteq> Done" by blast
  from t after have t3: "run example_calls [] ! 3 = Failed AlreadyConfiguredError" by blast
  from t fin have t4: "org_at (run_state (take 4 example_calls) []) 0 = SchemesSet" by blast
  from h1 h2 h3 t1 t2 t3 t4 r show ?thesis by blast
qed

end
